theory Spec2Isabelle
  imports Main
begin

section \<open>Values exchanged with the CFPB service\<close>

text \<open>
  Keyword arguments carry strings, booleans, integers, lists of strings or \<open>None\<close>
  (\<open>Home.py\<close> passes \<open>None\<close> for a missing date). Python strings are modelled as
  Isabelle strings wherever the code only compares them for equality; the narrative text,
  whose characters the regular expression classifies, is modelled as a list of code points
  further down.
\<close>

datatype pyval =
    PyNone
  | PyBool bool
  | PyInt int
  | PyStr string
  | PyStrList "string list"

text \<open>A keyword-argument dictionary, in insertion order. A Python dictionary never holds
  a key twice; the functions below are the comprehensions of the source read on the items
  in order.\<close>

type_synonym kwargs = "(string \<times> pyval) list"

datatype jsonv =
    JNull
  | JBool bool
  | JInt int
  | JStr string
  | JList "jsonv list"
  | JObject "(string \<times> jsonv) list"

datatype py_error =
    KeyError
  | ValueError
  | InvalidIndexError
  | TypeError
  | JSONDecodeError
  | RequestException

text \<open>What \<open>requests.get\<close> hands back: the status code and the decoded body, \<open>None\<close>
  when the body is not JSON (then \<open>response.json()\<close> raises).\<close>

record response =
  status_code :: int
  json :: "jsonv option"

text \<open>The remote service is outside the repository: \<open>requests.get(url, params=params)\<close> is
  a parameter of the model. It either raises (no connection, timeout) or returns a response.\<close>

type_synonym requests_get = "string \<Rightarrow> kwargs \<Rightarrow> py_error + response"

text \<open>What the client writes to standard output: the label with the dump of the
  parameters it sends, and the list of the keys it dropped.\<close>

datatype stdout_line =
    PrintParams string kwargs
  | PrintInvalid "string list"

section \<open>The client (\<open>cfpb_api_client.py\<close>)\<close>

definition base_url :: string where
  "base_url = ''https://www.consumerfinance.gov/data-research/consumer-complaints/search/api/v1/''"

definition search_valid_params :: "string list" where
  "search_valid_params =
    [''search_term'', ''field'', ''frm'', ''size'', ''sort'', ''format'', ''no_aggs'', ''no_highlight'',
     ''company'', ''company_public_response'', ''company_received_max'', ''company_received_min'',
     ''company_response'', ''consumer_consent_provided'', ''consumer_disputed'', ''date_received_max'',
     ''date_received_min'', ''has_narrative'', ''issue'', ''product'', ''state'', ''submitted_via'', ''tags'',
     ''timely'', ''zip_code'']"

definition trend_valid_params :: "string list" where
  "trend_valid_params =
    [''search_term'', ''field'', ''company'', ''company_public_response'', ''company_received_max'',
     ''company_received_min'', ''company_response'', ''consumer_consent_provided'', ''consumer_disputed'',
     ''date_received_max'', ''date_received_min'', ''focus'', ''has_narrative'', ''issue'', ''lens'',
     ''product'', ''state'', ''submitted_via'', ''sub_lens'', ''sub_lens_depth'', ''tags'', ''timely'',
     ''trend_depth'', ''trend_interval'', ''zip_code'']"

text \<open>\<open>params = {k: v for k, v in kwargs.items() if k in valid_params}\<close>\<close>

definition filter_params :: "string list \<Rightarrow> kwargs \<Rightarrow> kwargs" where
  "filter_params valid_params kwargs = filter (\<lambda>(k, v). k \<in> set valid_params) kwargs"

text \<open>\<open>invalid_params = [k for k in kwargs.keys() if k not in valid_params]\<close>\<close>

definition invalid_params :: "string list \<Rightarrow> kwargs \<Rightarrow> string list" where
  "invalid_params valid_params kwargs = filter (\<lambda>k. k \<notin> set valid_params) (map fst kwargs)"

text \<open>The two prints: the dump of \<open>params\<close> always, the rejected keys only when the list
  is not empty.\<close>

definition printed :: "string \<Rightarrow> string list \<Rightarrow> kwargs \<Rightarrow> stdout_line list" where
  "printed label valid_params kwargs =
     PrintParams label (filter_params valid_params kwargs) #
     (if invalid_params valid_params kwargs \<noteq> []
      then [PrintInvalid (invalid_params valid_params kwargs)] else [])"

text \<open>The tail shared by the three operations:
  \<open>if response.status_code == 200: return response.json()\<close>, else the error dictionary.\<close>

definition returned :: "response \<Rightarrow> py_error + jsonv" where
  "returned r =
     (if status_code r = 200
      then (case json r of None \<Rightarrow> Inl JSONDecodeError | Some body \<Rightarrow> Inr body)
      else Inr (JObject [(''error'', JStr ''Failed to fetch data''),
                         (''status_code'', JInt (status_code r))]))"

definition fetch :: "requests_get \<Rightarrow> string \<Rightarrow> kwargs \<Rightarrow> py_error + jsonv" where
  "fetch get url params = (case get url params of Inl e \<Rightarrow> Inl e | Inr r \<Rightarrow> returned r)"

text \<open>Each operation yields what it printed and what it returns (or the exception it
  raises).\<close>

definition search_complaints :: "requests_get \<Rightarrow> kwargs \<Rightarrow> stdout_line list \<times> (py_error + jsonv)" where
  "search_complaints get kwargs =
     (printed ''Search Complaints'' search_valid_params kwargs,
      fetch get base_url (filter_params search_valid_params kwargs))"

definition get_complaint :: "requests_get \<Rightarrow> string \<Rightarrow> py_error + jsonv" where
  "get_complaint get complaintId = fetch get (base_url @ ''/'' @ complaintId) []"

definition get_trend :: "requests_get \<Rightarrow> kwargs \<Rightarrow> stdout_line list \<times> (py_error + jsonv)" where
  "get_trend get kwargs =
     (printed ''Get Trend'' trend_valid_params kwargs,
      fetch get (base_url @ ''trends/'') (filter_params trend_valid_params kwargs))"

section \<open>Narrative clean-up (\<open>cleanup_narratives\<close> and lines 110--112 of \<open>Home.py\<close>)\<close>

text \<open>
  A narrative is a Python string: a sequence of Unicode code points, here natural numbers.
  \<open>py_str\<close> turns an Isabelle string literal into such a sequence.
\<close>

type_synonym pystr = "nat list"

definition py_str :: "string \<Rightarrow> pystr" where
  "py_str s = map of_char s"

text \<open>
  The pattern is \<open>\bX+(?:[^a-zA-Z\d]X+)*\<close>, compiled without flags, so \<open>\b\<close>, \<open>\w\<close> and
  \<open>\d\<close> follow Unicode. On ASCII the classes are written out; for the code points from 128
  on they are read from the Unicode tables of the Python runtime, which are a parameter.
\<close>

record unicode_db =
  uni_alnum :: "nat \<Rightarrow> bool"
  uni_decimal :: "nat \<Rightarrow> bool"

definition ascii_letter :: "nat \<Rightarrow> bool" where
  "ascii_letter c =
     (of_char CHR ''a'' \<le> c \<and> c \<le> of_char CHR ''z'' \<or> of_char CHR ''A'' \<le> c \<and> c \<le> of_char CHR ''Z'')"

definition ascii_digit :: "nat \<Rightarrow> bool" where
  "ascii_digit c = (of_char CHR ''0'' \<le> c \<and> c \<le> of_char CHR ''9'')"

text \<open>\<open>\d\<close>: a decimal digit.\<close>

definition re_digit :: "unicode_db \<Rightarrow> nat \<Rightarrow> bool" where
  "re_digit U c = (if c < 128 then ascii_digit c else uni_decimal U c)"

text \<open>\<open>\w\<close>: alphanumeric or the underscore.\<close>

definition re_word :: "unicode_db \<Rightarrow> nat \<Rightarrow> bool" where
  "re_word U c =
     (if c < 128 then ascii_letter c \<or> ascii_digit c \<or> c = of_char CHR ''_'' else uni_alnum U c)"

text \<open>\<open>[^a-zA-Z\d]\<close>: anything but an ASCII letter or a decimal digit.\<close>

definition separator :: "unicode_db \<Rightarrow> nat \<Rightarrow> bool" where
  "separator U c = (\<not> ascii_letter c \<and> \<not> re_digit U c)"

definition mask :: nat where
  "mask = of_char CHR ''X''"

definition replacement :: pystr where
  "replacement = py_str ''[R]''"

text \<open>\<open>\b\<close> between the character before the position (\<open>None\<close> at the start of the
  string) and the character at it (\<open>None\<close> at the end): exactly one of the two is a word
  character.\<close>

definition word_boundary :: "unicode_db \<Rightarrow> nat option \<Rightarrow> nat option \<Rightarrow> bool" where
  "word_boundary U prev nxt =
     ((case prev of None \<Rightarrow> False | Some p \<Rightarrow> re_word U p) \<noteq>
      (case nxt of None \<Rightarrow> False | Some n \<Rightarrow> re_word U n))"

text \<open>\<open>X+\<close>, greedy: the rest of the string after the run, \<open>None\<close> when there is no
  \<open>X\<close> to start with.\<close>

fun mask_run :: "pystr \<Rightarrow> pystr option" where
  "mask_run [] = None"
| "mask_run (c # cs) = (if c = mask then Some (dropWhile (\<lambda>x. x = mask) cs) else None)"

text \<open>\<open>(?:[^a-zA-Z\d]X+)*\<close>, greedy: as many groups as match; a separator that no \<open>X\<close>
  follows is not consumed. The result is the rest of the string. Nothing follows the star
  in the pattern, so the first, longest attempt is the match.\<close>

function groups :: "unicode_db \<Rightarrow> pystr \<Rightarrow> pystr" where
  "groups U [] = []"
| "groups U (c # cs) =
     (if separator U c
      then (case mask_run cs of None \<Rightarrow> c # cs | Some rest \<Rightarrow> groups U rest)
      else c # cs)"
  by pat_completeness auto
termination
proof (relation "measure (\<lambda>(U, s). length s)")
  show "wf (measure (\<lambda>(U, s). length s))" by simp
next
  fix U :: unicode_db and c :: nat and cs rest :: pystr
  assume "separator U c" and "mask_run cs = Some rest"
  then have "length rest \<le> length cs"
    by (cases cs) (auto split: if_splits intro: le_SucI length_dropWhile_le)
  then show "((U, rest), (U, c # cs)) \<in> measure (\<lambda>(U, s). length s)" by simp
qed

text \<open>The whole pattern at one position: the rest of the string after the match, if any.\<close>

definition pattern_match :: "unicode_db \<Rightarrow> nat option \<Rightarrow> pystr \<Rightarrow> pystr option" where
  "pattern_match U prev s =
     (if word_boundary U prev (case s of [] \<Rightarrow> None | c # cs \<Rightarrow> Some c)
      then (case mask_run s of None \<Rightarrow> None | Some rest \<Rightarrow> Some (groups U rest))
      else None)"

lemma length_mask_run: "mask_run s = Some rest \<Longrightarrow> length rest < length s"
  by (cases s) (auto split: if_splits intro: le_imp_less_Suc length_dropWhile_le)

lemma length_groups: "length (groups U s) \<le> length s"
proof (induction U s rule: groups.induct)
  case (1 U)
  then show ?case by simp
next
  case (2 U c cs)
  then show ?case
    using length_mask_run [of cs] by (auto split: option.splits)
qed

lemma length_pattern_match: "pattern_match U prev s = Some rest \<Longrightarrow> length rest < length s"
proof -
  assume "pattern_match U prev s = Some rest"
  then obtain r where r: "mask_run s = Some r" and rest: "rest = groups U r"
    by (auto simp: pattern_match_def split: if_splits option.splits)
  have "length rest \<le> length r"
    unfolding rest by (rule length_groups)
  with length_mask_run [OF r] show ?thesis by simp
qed

text \<open>
  \<open>re.sub(pattern, '[R]', s)\<close>: scan from the left; where the pattern matches, emit the
  replacement and go on after the match, else copy the character. \<open>prev\<close> is the character
  before the position; a match ends with an \<open>X\<close>, which is then the character before the
  next position. The pattern never matches the empty string.
\<close>

function re_sub :: "unicode_db \<Rightarrow> nat option \<Rightarrow> pystr \<Rightarrow> pystr" where
  "re_sub U prev [] = []"
| "re_sub U prev (c # cs) =
     (case pattern_match U prev (c # cs) of
        Some rest \<Rightarrow> replacement @ re_sub U (Some mask) rest
      | None \<Rightarrow> c # re_sub U (Some c) cs)"
  by pat_completeness auto
termination
  by (relation "measure (\<lambda>(U, prev, s). length s)") (auto dest: length_pattern_match)

text \<open>A pandas column of narratives: a missing value (\<open>None\<close>) passes through the string
  methods unchanged.\<close>

definition cleanup_narratives :: "unicode_db \<Rightarrow> pystr option list \<Rightarrow> pystr option list" where
  "cleanup_narratives U series = map (map_option (re_sub U None)) series"

text \<open>Lines 110--112 of \<open>fetch_data\<close>: the column \<open>clean_narratives\<close> is the cleaned-up
  narrative, then \<open>.str.slice(0, 500)\<close>.\<close>

definition clean_narratives :: "unicode_db \<Rightarrow> pystr option list \<Rightarrow> pystr option list" where
  "clean_narratives U series = map (map_option (take 500)) (cleanup_narratives U series)"

text \<open>The same on one narrative.\<close>

definition narrative_redactor :: "unicode_db \<Rightarrow> pystr \<Rightarrow> pystr" where
  "narrative_redactor U s = take 500 (re_sub U None s)"

text \<open>Two predicates for stating what the substitution achieves: the string starts with
  \<open>X\<close>; an \<open>X\<close> stands at a word boundary somewhere in the string, that is, at the start
  or right after a character that is not a word character.\<close>

fun starts_with_mask :: "pystr \<Rightarrow> bool" where
  "starts_with_mask [] = False"
| "starts_with_mask (c # cs) = (c = mask)"

fun mask_at_boundary :: "unicode_db \<Rightarrow> nat option \<Rightarrow> pystr \<Rightarrow> bool" where
  "mask_at_boundary U prev [] = False"
| "mask_at_boundary U prev (c # cs) =
     (c = mask \<and> word_boundary U prev (Some c) \<or> mask_at_boundary U (Some c) cs)"

text \<open>
  The strings the pattern describes after its \<open>\b\<close>: a run of \<open>n0 + 1\<close> letters \<open>X\<close>,
  then, for every \<open>(c, n)\<close> of \<open>gs\<close>, the character \<open>c\<close> and a run of \<open>n + 1\<close> letters
  \<open>X\<close>; it is a match when every such \<open>c\<close> is a separator. A match is maximal when the
  text after it cannot extend it: that text starts neither with \<open>X\<close> nor with a separator
  and an \<open>X\<close>.
\<close>

definition match_string :: "nat \<Rightarrow> (nat \<times> nat) list \<Rightarrow> pystr" where
  "match_string n0 gs =
     replicate (Suc n0) mask @ concat (map (\<lambda>(c, n). c # replicate (Suc n) mask) gs)"

fun can_extend :: "unicode_db \<Rightarrow> pystr \<Rightarrow> bool" where
  "can_extend U [] = False"
| "can_extend U [c] = (c = mask)"
| "can_extend U (c # d # cs) = (c = mask \<or> separator U c \<and> d = mask)"

section \<open>Trend reshaping (lines 122--133 of \<open>fetch_data\<close>)\<close>

text \<open>
  An item of \<open>trend['aggregations']['product']['product']['buckets']\<close>: its \<open>key\<close> (the
  category label) and the \<open>key_as_string\<close> and \<open>doc_count\<close> of each entry of
  \<open>item["trend_period"]['buckets']\<close>, in order.
\<close>

record product_bucket =
  key :: string
  trend_period :: "(string \<times> int) list"

text \<open>\<open>df_item\<close>: a frame indexed by the timestamp label (index name \<open>Date\<close>), with one
  column named after the category.\<close>

record frame =
  column :: string
  rows :: "(string \<times> int) list"

text \<open>
  The body of the loop. An empty bucket list makes a frame without columns, and selecting
  \<open>[['key_as_string', 'doc_count']]\<close> raises \<open>KeyError\<close>.
\<close>

definition item_frame :: "product_bucket \<Rightarrow> py_error + frame" where
  "item_frame item =
     (if trend_period item = [] then Inl KeyError
      else Inr \<lparr>column = key item, rows = trend_period item\<rparr>)"

text \<open>The loop: \<open>data\<close> collects the frames; the first exception ends it.\<close>

fun collect :: "product_bucket list \<Rightarrow> py_error + frame list" where
  "collect [] = Inr []"
| "collect (item # items) =
     (case item_frame item of
        Inl e \<Rightarrow> Inl e
      | Inr df_item \<Rightarrow>
          (case collect items of Inl e \<Rightarrow> Inl e | Inr data \<Rightarrow> Inr (df_item # data)))"

text \<open>\<open>Index.unique()\<close>: the first occurrence of every label, in order.\<close>

fun unique :: "'a list \<Rightarrow> 'a list" where
  "unique [] = []"
| "unique (x # xs) = x # unique (filter (\<lambda>y. y \<noteq> x) xs)"

text \<open>
  The row index \<open>pd.concat(data, axis=1)\<close> builds (outer join, \<open>sort=False\<close>): a single
  index, or the first one when all are equal, is taken as it is; otherwise the distinct
  labels of the first index, followed by the distinct labels of the others that the first
  lacks. Nothing is sorted. The case of no index is not reached: \<open>pd.concat\<close> raises first.
\<close>

definition union_indexes :: "string list list \<Rightarrow> string list" where
  "union_indexes indexes =
     (case indexes of
        [] \<Rightarrow> []
      | [index] \<Rightarrow> index
      | index # others \<Rightarrow>
          if list_all (\<lambda>other. other = index) others then index
          else unique index @ unique (filter (\<lambda>l. l \<notin> set (unique index)) (concat others)))"

text \<open>
  A column of counts after the concatenation. A frame whose counts all find their place
  keeps its integers. A frame that lacks a row for some label gets a missing value there
  (\<open>None\<close>, pandas' NaN), and its column is converted to a type that can hold one:
  \<open>float64\<close> for 64-bit counts, which keeps a count up to \<open>2^53\<close> and rounds a larger
  one. The conversion belongs to numpy and is a parameter: \<open>upcast col n\<close> is what the
  count \<open>n\<close> of a frame with the counts \<open>col\<close> becomes.
\<close>

datatype 'v column = IntColumn "int list" | UpcastColumn "'v option list"

definition align :: "(int list \<Rightarrow> int \<Rightarrow> 'v) \<Rightarrow> string list \<Rightarrow> frame \<Rightarrow> 'v column" where
  "align upcast new_labels df =
     (case those (map (map_of (rows df)) new_labels) of
        Some ns \<Rightarrow> IntColumn ns
      | None \<Rightarrow>
          UpcastColumn
            (map (\<lambda>l. map_option (upcast (map snd (rows df))) (map_of (rows df) l)) new_labels))"

text \<open>
  A frame is aligned to the new row index unless its index equals it; aligning needs the
  frame's labels to be unique (\<open>InvalidIndexError\<close> otherwise).
\<close>

definition reindex :: "(int list \<Rightarrow> int \<Rightarrow> 'v) \<Rightarrow> string list \<Rightarrow> frame \<Rightarrow> py_error + 'v column" where
  "reindex upcast new_labels df =
     (if map fst (rows df) = new_labels then Inr (IntColumn (map snd (rows df)))
      else if \<not> distinct (map fst (rows df)) then Inl InvalidIndexError
      else Inr (align upcast new_labels df))"

fun reindex_all ::
  "(int list \<Rightarrow> int \<Rightarrow> 'v) \<Rightarrow> string list \<Rightarrow> frame list \<Rightarrow> py_error + (string \<times> 'v column) list" where
  "reindex_all upcast new_labels [] = Inr []"
| "reindex_all upcast new_labels (df # dfs) =
     (case reindex upcast new_labels df of
        Inl e \<Rightarrow> Inl e
      | Inr col \<Rightarrow>
          (case reindex_all upcast new_labels dfs of
             Inl e \<Rightarrow> Inl e
           | Inr cols \<Rightarrow> Inr ((column df, col) # cols)))"

record 'v wide_frame =
  wide_index :: "string list"
  wide_columns :: "(string \<times> 'v column) list"

text \<open>\<open>pd.concat(data, axis=1)\<close>; with no frame it raises
  \<open>ValueError: No objects to concatenate\<close>.\<close>

definition pd_concat :: "(int list \<Rightarrow> int \<Rightarrow> 'v) \<Rightarrow> frame list \<Rightarrow> py_error + 'v wide_frame" where
  "pd_concat upcast data =
     (if data = [] then Inl ValueError
      else
        (let new_labels = union_indexes (map (\<lambda>df. map fst (rows df)) data)
         in case reindex_all upcast new_labels data of
              Inl e \<Rightarrow> Inl e
            | Inr cols \<Rightarrow> Inr \<lparr>wide_index = new_labels, wide_columns = cols\<rparr>))"

text \<open>
  \<open>fillna(0)\<close>: a missing date (\<open>NaT\<close>) and a missing count become 0; a column of
  integers has no missing value and stays as it is.
\<close>

datatype 'd date_cell = Timestamp 'd | Filled0

definition fillna_date :: "'d option \<Rightarrow> 'd date_cell" where
  "fillna_date v = (case v of None \<Rightarrow> Filled0 | Some d \<Rightarrow> Timestamp d)"

datatype 'v count_cell = Count int | Upcast 'v | Zero

definition fillna_count :: "'v column \<Rightarrow> 'v count_cell list" where
  "fillna_count col =
     (case col of
        IntColumn ns \<Rightarrow> map Count ns
      | UpcastColumn vs \<Rightarrow> map (\<lambda>v. case v of None \<Rightarrow> Zero | Some x \<Rightarrow> Upcast x) vs)"

text \<open>The table stored in the session state: the column \<open>Date\<close> and, after it, one
  column of counts per frame, by name, in order.\<close>

record ('d, 'v) trend_table =
  Date :: "'d date_cell list"
  counts :: "(string \<times> 'v count_cell list) list"

text \<open>
  Lines 122--133. \<open>reset_index\<close> turns the row index into the column \<open>Date\<close>. With a
  category that is itself called \<open>Date\<close> the selection \<open>df_trend['Date']\<close> is not a single
  column and the conversion of line 131 raises, whatever the labels are.
  \<open>pd.to_datetime\<close> is pandas' parser, a parameter: given the column of labels it raises
  or returns the parsed values (\<open>None\<close> for \<open>NaT\<close>), one per label (a column of another
  length cannot be assigned).
\<close>

definition trend_reshaper ::
  "(int list \<Rightarrow> int \<Rightarrow> 'v) \<Rightarrow> (string list \<Rightarrow> py_error + 'd option list) \<Rightarrow> product_bucket list
     \<Rightarrow> py_error + ('d, 'v) trend_table" where
  "trend_reshaper upcast to_datetime buckets =
     (case collect buckets of
        Inl e \<Rightarrow> Inl e
      | Inr data \<Rightarrow>
     (case pd_concat upcast data of
        Inl e \<Rightarrow> Inl e
      | Inr df_trend \<Rightarrow>
     if ''Date'' \<in> set (map fst (wide_columns df_trend)) then Inl TypeError
     else
     (case to_datetime (wide_index df_trend) of
        Inl e \<Rightarrow> Inl e
      | Inr dates \<Rightarrow>
          if length dates \<noteq> length (wide_index df_trend) then Inl ValueError
          else Inr \<lparr>Date = map fillna_date dates,
                    counts = map (\<lambda>(name, col). (name, fillna_count col)) (wide_columns df_trend)\<rparr>)))"

text \<open>The row labels of the table, as the code builds them, and the timestamp labels of
  all bucket sequences in the order of their first appearance.\<close>

definition row_labels :: "product_bucket list \<Rightarrow> string list" where
  "row_labels buckets = union_indexes (map (\<lambda>b. map fst (trend_period b)) buckets)"

definition timestamp_labels :: "product_bucket list \<Rightarrow> string list" where
  "timestamp_labels buckets = unique (concat (map (\<lambda>b. map fst (trend_period b)) buckets))"

section \<open>Concrete collaborators and inputs\<close>

text \<open>Two stand-ins for the remote service, for concrete runs: one answers every request
  with status 200 and an empty JSON object, the other answers a request without parameters
  with 200 and every other request with 404.\<close>

definition service_ok :: requests_get where
  "service_ok url params = Inr \<lparr>status_code = 200, json = Some (JObject [])\<rparr>"

definition service_404_with_params :: requests_get where
  "service_404_with_params url params =
     (if params = [] then Inr \<lparr>status_code = 200, json = Some (JObject [])\<rparr>
      else Inr \<lparr>status_code = 404, json = None\<rparr>)"

text \<open>A Unicode table for runs on ASCII text, where the table is never consulted.\<close>

definition no_unicode :: unicode_db where
  "no_unicode = \<lparr>uni_alnum = (\<lambda>c. False), uni_decimal = (\<lambda>c. False)\<rparr>"

text \<open>A date parser for runs on labels of the form \<open>YYYY-MM-DD\<close>: the date as the number
  \<open>YYYYMMDD\<close>, which orders dates as the calendar does; any other label raises.\<close>

definition digit :: "char \<Rightarrow> int option" where
  "digit c = (if c \<in> set ''0123456789'' then Some (of_char c - 48) else None)"

definition iso_date :: "string \<Rightarrow> int option" where
  "iso_date s =
     (let ds = take 4 s @ take 2 (drop 5 s) @ drop 8 s
      in if length s = 10 \<and> s ! 4 = CHR ''-'' \<and> s ! 7 = CHR ''-'' \<and> list_all (\<lambda>c. digit c \<noteq> None) ds
         then Some (foldl (\<lambda>n c. 10 * n + the (digit c)) 0 ds)
         else None)"

definition iso_to_datetime :: "string list \<Rightarrow> py_error + int option list" where
  "iso_to_datetime labels =
     (if list_all (\<lambda>l. iso_date l \<noteq> None) labels then Inr (map iso_date labels) else Inl ValueError)"

text \<open>The conversion of a column for runs on counts of at most \<open>2^53\<close>, which it keeps.\<close>

definition small_counts :: "int list \<Rightarrow> int \<Rightarrow> int" where
  "small_counts col n = n"

text \<open>The example of the specification, the same categories with the months arriving in
  another order, and a category whose bucket sequence repeats a label.\<close>

definition spec_example :: "product_bucket list" where
  "spec_example =
     [\<lparr>key = ''Checking'', trend_period = [(''2024-01-01'', 3), (''2024-02-01'', 5)]\<rparr>,
      \<lparr>key = ''Credit Card'', trend_period = [(''2024-02-01'', 2)]\<rparr>]"

definition late_first_example :: "product_bucket list" where
  "late_first_example =
     [\<lparr>key = ''Checking'', trend_period = [(''2024-02-01'', 5)]\<rparr>,
      \<lparr>key = ''Credit Card'', trend_period = [(''2024-01-01'', 2), (''2024-02-01'', 2)]\<rparr>]"

definition repeated_label_example :: "product_bucket list" where
  "repeated_label_example =
     [\<lparr>key = ''Checking'', trend_period = [(''2024-01-01'', 3), (''2024-01-01'', 5)]\<rparr>]"

section \<open>Parameter filtering\<close>

lemma filter_params_keys: "set (map fst (filter_params vs kw)) = set (map fst kw) \<inter> set vs"
  by (induction kw) (auto simp: filter_params_def)

lemma filter_params_map_of:
  "map_of (filter_params vs kw) k = (if k \<in> set vs then map_of kw k else None)"
  by (induction kw) (auto simp: filter_params_def)

lemma filter_params_idem: "filter_params vs (filter_params vs kw) = filter_params vs kw"
  by (simp add: filter_params_def)

lemma invalid_params_filtered: "invalid_params vs (filter_params vs kw) = []"
  by (induction kw) (auto simp: filter_params_def invalid_params_def)

lemma invalid_params_keys: "set (invalid_params vs kw) = set (map fst kw) - set vs"
  by (induction kw) (auto simp: invalid_params_def)

lemma returned_not_200:
  "status_code r \<noteq> 200 \<Longrightarrow>
   returned r = Inr (JObject [(''error'', JStr ''Failed to fetch data''),
                              (''status_code'', JInt (status_code r))])"
  by (simp add: returned_def)

lemma returned_200: "status_code r = 200 \<Longrightarrow> json r = Some body \<Longrightarrow> returned r = Inr body"
  by (simp add: returned_def)

text \<open>
  Claim C5. For either endpoint, the keys of the sanitized parameters are keys of the input
  and members of the endpoint's allow-list, and looking a kept key up in the sanitized
  parameters gives the value the input has for it.
\<close>

theorem sanitized_keys_and_values:
  "set (map fst (filter_params search_valid_params kw)) \<subseteq> set (map fst kw) \<inter> set search_valid_params
   \<and> set (map fst (filter_params trend_valid_params kw)) \<subseteq> set (map fst kw) \<inter> set trend_valid_params
   \<and> (\<forall>k v. map_of (filter_params search_valid_params kw) k = Some v \<longrightarrow> map_of kw k = Some v)
   \<and> (\<forall>k v. map_of (filter_params trend_valid_params kw) k = Some v \<longrightarrow> map_of kw k = Some v)"
proof -
  have keys: "set (map fst (filter_params vs kw)) \<subseteq> set (map fst kw) \<inter> set vs" for vs
    using filter_params_keys [of vs kw] by simp
  have vals: "map_of (filter_params vs kw) k = Some v \<longrightarrow> map_of kw k = Some v" for vs k v
    by (simp add: filter_params_map_of)
  from keys vals show ?thesis by blast
qed

theorem sanitized_keys_and_values_witness:
  "map_of (filter_params search_valid_params [(''size'', PyInt 20), (''bogus_key'', PyStr ''x'')]) ''size''
     = Some (PyInt 20)
   \<and> map_of [(''size'', PyInt 20), (''bogus_key'', PyStr ''x'')] ''size'' = Some (PyInt 20)
   \<and> map_of (filter_params trend_valid_params [(''lens'', PyStr ''product''), (''size'', PyInt 20)]) ''lens''
     = Some (PyStr ''product'')
   \<and> map_of [(''lens'', PyStr ''product''), (''size'', PyInt 20)] ''lens'' = Some (PyStr ''product'')"
  using sanitized_keys_and_values [of "[(''size'', PyInt 20), (''bogus_key'', PyStr ''x'')]"]
    sanitized_keys_and_values [of "[(''lens'', PyStr ''product''), (''size'', PyInt 20)]"]
  by (simp add: filter_params_def search_valid_params_def trend_valid_params_def)

text \<open>
  Claim C10. Filtering is idempotent for either endpoint: filtering the sanitized parameters
  again against the same allow-list gives the sanitized parameters back.
\<close>

theorem parameter_filter_idempotent:
  "filter_params search_valid_params (filter_params search_valid_params kw)
     = filter_params search_valid_params kw
   \<and> filter_params trend_valid_params (filter_params trend_valid_params kw)
     = filter_params trend_valid_params kw"
  by (simp add: filter_params_idem)

text \<open>
  Claim C7. Whatever response the service gives, an operation of the client returns the
  dictionary \<open>{"error": "Failed to fetch data", "status_code": code}\<close> as a value when the
  status code is not 200, and the decoded JSON body when the status code is 200.
\<close>

theorem status_code_decides_result:
  "(get base_url (filter_params search_valid_params kw) = Inr r \<longrightarrow>
      (status_code r \<noteq> 200 \<longrightarrow>
         snd (search_complaints get kw) =
           Inr (JObject [(''error'', JStr ''Failed to fetch data''), (''status_code'', JInt (status_code r))]))
      \<and> (status_code r = 200 \<and> json r = Some body \<longrightarrow> snd (search_complaints get kw) = Inr body))
   \<and> (get (base_url @ ''trends/'') (filter_params trend_valid_params kw) = Inr r \<longrightarrow>
      (status_code r \<noteq> 200 \<longrightarrow>
         snd (get_trend get kw) =
           Inr (JObject [(''error'', JStr ''Failed to fetch data''), (''status_code'', JInt (status_code r))]))
      \<and> (status_code r = 200 \<and> json r = Some body \<longrightarrow> snd (get_trend get kw) = Inr body))
   \<and> (get (base_url @ ''/'' @ complaintId) [] = Inr r \<longrightarrow>
      (status_code r \<noteq> 200 \<longrightarrow>
         get_complaint get complaintId =
           Inr (JObject [(''error'', JStr ''Failed to fetch data''), (''status_code'', JInt (status_code r))]))
      \<and> (status_code r = 200 \<and> json r = Some body \<longrightarrow> get_complaint get complaintId = Inr body))"
proof -
  have s: "snd (search_complaints get kw) = returned r"
    if "get base_url (filter_params search_valid_params kw) = Inr r"
    using that by (simp add: search_complaints_def fetch_def)
  have t: "snd (get_trend get kw) = returned r"
    if "get (base_url @ ''trends/'') (filter_params trend_valid_params kw) = Inr r"
    using that by (simp add: get_trend_def fetch_def)
  have c: "get_complaint get complaintId = returned r"
    if "get (base_url @ ''/'' @ complaintId) [] = Inr r"
    using that by (simp add: get_complaint_def fetch_def)
  show ?thesis
    using s t c by (simp add: returned_not_200 returned_200)
qed

theorem status_code_decides_result_witness:
  "snd (search_complaints service_404_with_params [(''size'', PyInt 20)]) =
     Inr (JObject [(''error'', JStr ''Failed to fetch data''), (''status_code'', JInt 404)])
   \<and> snd (get_trend service_404_with_params [(''size'', PyInt 20)]) = Inr (JObject [])
   \<and> get_complaint service_404_with_params ''8256566'' = Inr (JObject [])"
proof -
  have p1: "filter_params search_valid_params [(''size'', PyInt 20)] = [(''size'', PyInt 20)]"
    by (simp add: filter_params_def search_valid_params_def)
  have p2: "filter_params trend_valid_params [(''size'', PyInt 20)] = []"
    by (simp add: filter_params_def trend_valid_params_def)
  have g1: "service_404_with_params base_url (filter_params search_valid_params [(''size'', PyInt 20)])
      = Inr \<lparr>status_code = 404, json = None\<rparr>"
    unfolding p1 by (simp add: service_404_with_params_def)
  have g2: "service_404_with_params (base_url @ ''trends/'') (filter_params trend_valid_params [(''size'', PyInt 20)])
      = Inr \<lparr>status_code = 200, json = Some (JObject [])\<rparr>"
    unfolding p2 by (simp add: service_404_with_params_def)
  have g3: "service_404_with_params (base_url @ ''/'' @ ''8256566'') []
      = Inr \<lparr>status_code = 200, json = Some (JObject [])\<rparr>"
    by (simp add: service_404_with_params_def)
  show ?thesis
    using g1 g2 g3
      status_code_decides_result [of service_404_with_params "[(''size'', PyInt 20)]"
        "\<lparr>status_code = 404, json = None\<rparr>" "JObject []" "''8256566''"]
      status_code_decides_result [of service_404_with_params "[(''size'', PyInt 20)]"
        "\<lparr>status_code = 200, json = Some (JObject [])\<rparr>" "JObject []" "''8256566''"]
    by simp
qed

text \<open>
  Claim C4, as the code has it. For either endpoint the operation computes the sanitized
  parameters (the entries of the input whose key is in the allow-list, in input order) and
  the list of rejected keys (the input keys outside the allow-list, in input order). The
  sanitized parameters are what it sends with the request, to the endpoint's address. The
  rejected list is printed when it is not empty and is not part of the returned value,
  which is the one the sanitized input alone gives. For the search allow-list,
  \<open>{"size": 20, "bogus_key": "x"}\<close> gives the sanitized parameters \<open>{"size": 20}\<close> and
  the rejected list \<open>["bogus_key"]\<close>.
\<close>

theorem rejected_keys_printed_not_returned:
  "filter_params search_valid_params kw = filter (\<lambda>(k, v). k \<in> set search_valid_params) kw
   \<and> invalid_params search_valid_params kw = filter (\<lambda>k. k \<notin> set search_valid_params) (map fst kw)
   \<and> filter_params trend_valid_params kw = filter (\<lambda>(k, v). k \<in> set trend_valid_params) kw
   \<and> invalid_params trend_valid_params kw = filter (\<lambda>k. k \<notin> set trend_valid_params) (map fst kw)
   \<and> set (map fst (filter_params search_valid_params kw)) = set (map fst kw) \<inter> set search_valid_params
   \<and> set (invalid_params search_valid_params kw) = set (map fst kw) - set search_valid_params
   \<and> set (map fst (filter_params trend_valid_params kw)) = set (map fst kw) \<inter> set trend_valid_params
   \<and> set (invalid_params trend_valid_params kw) = set (map fst kw) - set trend_valid_params
   \<and> snd (search_complaints get kw) =
       (case get base_url (filter_params search_valid_params kw) of
          Inl e \<Rightarrow> Inl e | Inr r \<Rightarrow> returned r)
   \<and> snd (get_trend get kw) =
       (case get (base_url @ ''trends/'') (filter_params trend_valid_params kw) of
          Inl e \<Rightarrow> Inl e | Inr r \<Rightarrow> returned r)
   \<and> fst (search_complaints get kw) =
       PrintParams ''Search Complaints'' (filter_params search_valid_params kw) #
       (if invalid_params search_valid_params kw = [] then []
        else [PrintInvalid (invalid_params search_valid_params kw)])
   \<and> fst (get_trend get kw) =
       PrintParams ''Get Trend'' (filter_params trend_valid_params kw) #
       (if invalid_params trend_valid_params kw = [] then []
        else [PrintInvalid (invalid_params trend_valid_params kw)])
   \<and> snd (search_complaints get kw) = snd (search_complaints get (filter_params search_valid_params kw))
   \<and> snd (get_trend get kw) = snd (get_trend get (filter_params trend_valid_params kw))
   \<and> filter_params search_valid_params [(''size'', PyInt 20), (''bogus_key'', PyStr ''x'')]
       = [(''size'', PyInt 20)]
   \<and> invalid_params search_valid_params [(''size'', PyInt 20), (''bogus_key'', PyStr ''x'')]
       = [''bogus_key'']"
proof -
  have ex1: "filter_params search_valid_params [(''size'', PyInt 20), (''bogus_key'', PyStr ''x'')]
       = [(''size'', PyInt 20)]"
    by (simp add: filter_params_def search_valid_params_def)
  have ex2: "invalid_params search_valid_params [(''size'', PyInt 20), (''bogus_key'', PyStr ''x'')]
       = [''bogus_key'']"
    by (simp add: invalid_params_def search_valid_params_def)
  have f: "filter_params vs kw = filter (\<lambda>(k, v). k \<in> set vs) kw" for vs
    by (simp add: filter_params_def)
  have i: "invalid_params vs kw = filter (\<lambda>k. k \<notin> set vs) (map fst kw)" for vs
    by (simp add: invalid_params_def)
  have sent1: "snd (search_complaints get kw) =
       (case get base_url (filter_params search_valid_params kw) of
          Inl e \<Rightarrow> Inl e | Inr r \<Rightarrow> returned r)"
    by (simp add: search_complaints_def fetch_def)
  have sent2: "snd (get_trend get kw) =
       (case get (base_url @ ''trends/'') (filter_params trend_valid_params kw) of
          Inl e \<Rightarrow> Inl e | Inr r \<Rightarrow> returned r)"
    by (simp add: get_trend_def fetch_def)
  have out1: "fst (search_complaints get kw) =
       PrintParams ''Search Complaints'' (filter_params search_valid_params kw) #
       (if invalid_params search_valid_params kw = [] then []
        else [PrintInvalid (invalid_params search_valid_params kw)])"
    by (simp add: search_complaints_def printed_def)
  have out2: "fst (get_trend get kw) =
       PrintParams ''Get Trend'' (filter_params trend_valid_params kw) #
       (if invalid_params trend_valid_params kw = [] then []
        else [PrintInvalid (invalid_params trend_valid_params kw)])"
    by (simp add: get_trend_def printed_def)
  have ret1: "snd (search_complaints get kw) = snd (search_complaints get (filter_params search_valid_params kw))"
    by (simp add: search_complaints_def filter_params_idem)
  have ret2: "snd (get_trend get kw) = snd (get_trend get (filter_params trend_valid_params kw))"
    by (simp add: get_trend_def filter_params_idem)
  have keys: "set (map fst (filter_params vs kw)) = set (map fst kw) \<inter> set vs" for vs
    by (rule filter_params_keys)
  have rej: "set (invalid_params vs kw) = set (map fst kw) - set vs" for vs
    by (rule invalid_params_keys)
  show ?thesis
    by (intro conjI f i keys rej sent1 sent2 out1 out2 ret1 ret2 ex1 ex2)
qed

text \<open>
  Claim C4 as stated fails: with the rejected key \<open>bogus_key\<close> in the input, the value the
  caller gets back is the response body alone, the same value as without the rejected key,
  while the rejected lists of the two calls differ.
\<close>

theorem rejected_keys_returned_counterexample:
  "snd (search_complaints service_ok [(''size'', PyInt 20), (''bogus_key'', PyStr ''x'')]) = Inr (JObject [])
   \<and> snd (search_complaints service_ok [(''size'', PyInt 20)]) = Inr (JObject [])
   \<and> invalid_params search_valid_params [(''size'', PyInt 20), (''bogus_key'', PyStr ''x'')] = [''bogus_key'']
   \<and> invalid_params search_valid_params [(''size'', PyInt 20)] = []"
  by (simp add: search_complaints_def fetch_def service_ok_def returned_def invalid_params_def
      search_valid_params_def)

section \<open>The narrative clean-up: what the substitution does\<close>

lemma clean_narratives_elementwise:
  "clean_narratives U series = map (map_option (narrative_redactor U)) series"
  by (simp add: clean_narratives_def cleanup_narratives_def narrative_redactor_def [abs_def]
      option.map_comp comp_def)

lemma mask_value: "mask = 88"
  by (simp add: mask_def)

lemma replacement_value: "replacement = [91, 82, 93]"
  by (simp add: replacement_def py_str_def)

lemma re_word_mask: "re_word U mask"
  by (simp add: re_word_def ascii_letter_def mask_def)

lemma pattern_match_None:
  "pattern_match U prev (c # cs) = None \<longleftrightarrow> \<not> (c = mask \<and> word_boundary U prev (Some c))"
  by (simp add: pattern_match_def)

lemma mask_run_rest: "mask_run s = Some r \<Longrightarrow> \<not> starts_with_mask r"
proof (cases s)
  case Nil
  assume "mask_run s = Some r"
  with Nil show ?thesis by simp
next
  case (Cons c cs)
  assume "mask_run s = Some r"
  with Cons have r: "r = dropWhile (\<lambda>x. x = mask) cs"
    by (simp split: if_splits)
  show ?thesis
  proof (cases r)
    case Nil
    then show ?thesis by simp
  next
    case (Cons d ds)
    with r have eq: "dropWhile (\<lambda>x. x = mask) cs = d # ds"
      by simp
    then have "d \<noteq> mask"
      using hd_dropWhile [of "\<lambda>x. x = mask" cs] by simp
    with Cons show ?thesis by simp
  qed
qed

lemma groups_rest: "\<not> starts_with_mask s \<Longrightarrow> \<not> starts_with_mask (groups U s)"
proof (induction U s rule: groups.induct)
  case (1 U)
  then show ?case by simp
next
  case (2 U c cs)
  show ?case
  proof (cases "separator U c")
    case False
    with "2.prems" show ?thesis by simp
  next
    case True
    show ?thesis
    proof (cases "mask_run cs")
      case None
      with True "2.prems" show ?thesis by simp
    next
      case (Some rest)
      from mask_run_rest [OF Some] "2.IH" [OF True Some]
      have "\<not> starts_with_mask (groups U rest)" by simp
      with True Some show ?thesis by simp
    qed
  qed
qed

lemma pattern_match_rest: "pattern_match U prev s = Some rest \<Longrightarrow> \<not> starts_with_mask rest"
  by (auto simp: pattern_match_def split: if_splits option.splits dest: mask_run_rest groups_rest)

lemma re_sub_head:
  "\<not> starts_with_mask (c # cs) \<Longrightarrow> re_sub U prev (c # cs) = c # re_sub U (Some c) cs"
  by (simp add: pattern_match_def)

lemma re_sub_starts: "\<not> starts_with_mask s \<Longrightarrow> \<not> starts_with_mask (re_sub U prev s)"
  by (cases s) (simp_all add: pattern_match_def)

lemma mask_at_boundary_prev:
  "\<not> starts_with_mask s \<Longrightarrow> mask_at_boundary U p s = mask_at_boundary U q s"
  by (cases s) simp_all

lemma mask_at_boundary_replacement:
  "mask_at_boundary U prev (replacement @ s) = mask_at_boundary U (Some 93) s"
  by (simp add: replacement_value mask_value)

lemma re_sub_clean: "\<not> mask_at_boundary U prev (re_sub U prev s)"
proof (induction U prev s rule: re_sub.induct)
  case (1 U prev)
  then show ?case by simp
next
  case (2 U prev c cs)
  show ?case
  proof (cases "pattern_match U prev (c # cs)")
    case None
    from "2.IH" None have "\<not> mask_at_boundary U (Some c) (re_sub U (Some c) cs)"
      by simp
    with None pattern_match_None [of U prev c cs] show ?thesis by auto
  next
    case (Some rest)
    from pattern_match_rest [OF Some] have "\<not> starts_with_mask (re_sub U (Some mask) rest)"
      by (rule re_sub_starts)
    then have "mask_at_boundary U (Some 93) (re_sub U (Some mask) rest)
        = mask_at_boundary U (Some mask) (re_sub U (Some mask) rest)"
      by (rule mask_at_boundary_prev)
    with "2.IH" Some show ?thesis
      by (simp add: mask_at_boundary_replacement)
  qed
qed

lemma re_sub_fixed: "\<not> mask_at_boundary U prev s \<Longrightarrow> re_sub U prev s = s"
proof (induction s arbitrary: prev)
  case Nil
  then show ?case by simp
next
  case (Cons c cs)
  then have "pattern_match U prev (c # cs) = None" and "\<not> mask_at_boundary U (Some c) cs"
    by (auto simp: pattern_match_None)
  with Cons.IH show ?case by simp
qed

lemma re_sub_changes: "mask_at_boundary U prev s \<Longrightarrow> re_sub U prev s \<noteq> s"
proof (induction s arbitrary: prev)
  case Nil
  then show ?case by simp
next
  case (Cons c cs)
  show ?case
  proof (cases "pattern_match U prev (c # cs)")
    case None
    with Cons.prems have "mask_at_boundary U (Some c) cs"
      by (auto simp: pattern_match_None)
    with Cons.IH None show ?thesis by simp
  next
    case (Some rest)
    then have "c = mask"
      using pattern_match_None [of U prev c cs] by auto
    with Some show ?thesis
      by (simp add: replacement_value mask_value)
  qed
qed

lemma mask_at_boundary_take:
  "\<not> mask_at_boundary U prev s \<Longrightarrow> \<not> mask_at_boundary U prev (take n s)"
proof (induction s arbitrary: prev n)
  case Nil
  then show ?case by simp
next
  case (Cons c cs)
  then show ?case by (cases n) auto
qed

lemma separator_not_mask: "separator U c \<Longrightarrow> c \<noteq> mask"
  by (auto simp: separator_def ascii_letter_def mask_def)

lemma can_extend_starts: "\<not> can_extend U s \<Longrightarrow> \<not> starts_with_mask s"
  by (cases "(U, s)" rule: can_extend.cases) auto

lemma mask_run_replicate:
  "\<not> starts_with_mask t \<Longrightarrow> mask_run (replicate (Suc n) mask @ t) = Some t"
proof -
  assume t: "\<not> starts_with_mask t"
  have "dropWhile (\<lambda>x. x = mask) (replicate n mask @ t) = dropWhile (\<lambda>x. x = mask) t"
    by (rule dropWhile_append2) simp
  also from t have "dropWhile (\<lambda>x. x = mask) t = t"
    by (cases t) auto
  finally show ?thesis by simp
qed

lemma groups_stop: "\<not> can_extend U rest \<Longrightarrow> groups U rest = rest"
  by (cases "(U, rest)" rule: can_extend.cases) auto

lemma groups_starts:
  "list_all (\<lambda>(c, n). separator U c) gs \<Longrightarrow> \<not> can_extend U rest \<Longrightarrow>
   \<not> starts_with_mask (concat (map (\<lambda>(c, n). c # replicate (Suc n) mask) gs) @ rest)"
  by (cases gs) (auto dest: separator_not_mask can_extend_starts)

lemma groups_consumes:
  "list_all (\<lambda>(c, n). separator U c) gs \<Longrightarrow> \<not> can_extend U rest \<Longrightarrow>
   groups U (concat (map (\<lambda>(c, n). c # replicate (Suc n) mask) gs) @ rest) = rest"
proof (induction gs)
  case Nil
  then show ?case by (simp add: groups_stop)
next
  case (Cons g gs)
  obtain c n where g: "g = (c, n)" by (cases g)
  let ?t = "concat (map (\<lambda>(c, n). c # replicate (Suc n) mask) gs) @ rest"
  from Cons.prems g have sep: "separator U c" and all: "list_all (\<lambda>(c, n). separator U c) gs"
    by auto
  from groups_starts [OF all Cons.prems(2)] have "mask_run (replicate (Suc n) mask @ ?t) = Some ?t"
    by (rule mask_run_replicate)
  then have "groups U (c # replicate (Suc n) mask @ ?t) = groups U ?t"
    using sep by simp
  with Cons.IH [OF all Cons.prems(2)] g show ?case by simp
qed

lemma pattern_match_match_string:
  assumes "word_boundary U prev (Some mask)"
    and "list_all (\<lambda>(c, n). separator U c) gs"
    and "\<not> can_extend U rest"
  shows "pattern_match U prev (match_string n0 gs @ rest) = Some rest"
proof -
  let ?t = "concat (map (\<lambda>(c, n). c # replicate (Suc n) mask) gs) @ rest"
  have run: "mask_run (replicate (Suc n0) mask @ ?t) = Some ?t"
    using groups_starts [OF assms(2,3)] by (rule mask_run_replicate)
  have "pattern_match U prev (replicate (Suc n0) mask @ ?t) = Some (groups U ?t)"
    unfolding pattern_match_def run using assms(1) by simp
  with groups_consumes [OF assms(2,3)] show ?thesis
    by (simp add: match_string_def)
qed

lemma re_sub_match_string:
  assumes "word_boundary U prev (Some mask)"
    and "list_all (\<lambda>(c, n). separator U c) gs"
    and "\<not> can_extend U rest"
  shows "re_sub U prev (match_string n0 gs @ rest) = replacement @ re_sub U (Some mask) rest"
proof -
  obtain cs where cs: "match_string n0 gs @ rest = mask # cs"
    by (simp add: match_string_def)
  from pattern_match_match_string [OF assms, of n0] have "pattern_match U prev (mask # cs) = Some rest"
    by (simp add: cs)
  then show ?thesis by (simp add: cs)
qed

lemma re_sub_keep:
  "\<not> (c = mask \<and> word_boundary U prev (Some c)) \<Longrightarrow> re_sub U prev (c # cs) = c # re_sub U (Some c) cs"
  using pattern_match_None [of U prev c cs] by simp

lemma mask_run_shape:
  "mask_run s = Some r \<Longrightarrow> \<exists>n. s = replicate (Suc n) mask @ r"
proof (cases s)
  case Nil
  assume "mask_run s = Some r"
  with Nil show ?thesis by simp
next
  case (Cons c cs)
  assume "mask_run s = Some r"
  with Cons have c: "c = mask" and r: "r = dropWhile (\<lambda>x. x = mask) cs"
    by (simp_all split: if_splits)
  have "takeWhile (\<lambda>x. x = mask) cs = replicate (length (takeWhile (\<lambda>x. x = mask) cs)) mask"
    by (rule replicate_length_same [symmetric]) (auto dest: set_takeWhileD)
  then have "cs = replicate (length (takeWhile (\<lambda>x. x = mask) cs)) mask @ r"
    using takeWhile_dropWhile_id [of "\<lambda>x. x = mask" cs] r by simp
  with Cons c have "s = replicate (Suc (length (takeWhile (\<lambda>x. x = mask) cs))) mask @ r"
    by simp
  then show ?thesis ..
qed

lemma groups_shape:
  "\<exists>gs. s = concat (map (\<lambda>(c, n). c # replicate (Suc n) mask) gs) @ groups U s
     \<and> list_all (\<lambda>(c, n). separator U c) gs
     \<and> (\<not> starts_with_mask s \<longrightarrow> \<not> can_extend U (groups U s))"
proof (induction U s rule: groups.induct)
  case (1 U)
  have "[] = concat (map (\<lambda>(c, n). c # replicate (Suc n) mask) []) @ groups U []
     \<and> list_all (\<lambda>(c, n). separator U c) []
     \<and> (\<not> starts_with_mask [] \<longrightarrow> \<not> can_extend U (groups U []))"
    by simp
  then show ?case by blast
next
  case (2 U c cs)
  show ?case
  proof (cases "separator U c \<and> mask_run cs \<noteq> None")
    case False
    then have g: "groups U (c # cs) = c # cs"
      by (auto split: option.splits)
    have "\<not> can_extend U (c # cs)" if "\<not> starts_with_mask (c # cs)"
    proof (cases cs)
      case Nil
      with that show ?thesis by simp
    next
      case (Cons d ds)
      with False that show ?thesis by (auto split: if_splits)
    qed
    then have "c # cs = concat (map (\<lambda>(c, n). c # replicate (Suc n) mask) []) @ groups U (c # cs)
     \<and> list_all (\<lambda>(c, n). separator U c) []
     \<and> (\<not> starts_with_mask (c # cs) \<longrightarrow> \<not> can_extend U (groups U (c # cs)))"
      unfolding g by simp
    then show ?thesis by blast
  next
    case True
    then obtain r where sep: "separator U c" and r: "mask_run cs = Some r"
      by auto
    from mask_run_shape [OF r] obtain n where cs: "cs = replicate (Suc n) mask @ r" ..
    from "2.IH" [OF sep r] mask_run_rest [OF r] obtain gs where
      gs: "r = concat (map (\<lambda>(c, n). c # replicate (Suc n) mask) gs) @ groups U r"
      and all: "list_all (\<lambda>(c, n). separator U c) gs"
      and stop: "\<not> can_extend U (groups U r)"
      by blast
    have g: "groups U (c # cs) = groups U r"
      using sep r by simp
    have "c # cs = c # replicate (Suc n) mask @ r"
      using cs by simp
    also have "\<dots> = c # replicate (Suc n) mask
        @ (concat (map (\<lambda>(c, n). c # replicate (Suc n) mask) gs) @ groups U r)"
      by (subst gs) (rule refl)
    also have "\<dots> = concat (map (\<lambda>(c, n). c # replicate (Suc n) mask) ((c, n) # gs)) @ groups U (c # cs)"
      unfolding g by simp
    finally have "c # cs
        = concat (map (\<lambda>(c, n). c # replicate (Suc n) mask) ((c, n) # gs)) @ groups U (c # cs)" .
    moreover have "list_all (\<lambda>(c, n). separator U c) ((c, n) # gs)"
      using sep all by simp
    ultimately show ?thesis
      using stop g by metis
  qed
qed

lemma match_shape:
  assumes "c = mask"
  shows "\<exists>n0 gs rest. c # cs = match_string n0 gs @ rest
     \<and> list_all (\<lambda>(c, n). separator U c) gs \<and> \<not> can_extend U rest"
proof -
  from assms obtain r where r: "mask_run (c # cs) = Some r" by simp
  from mask_run_shape [OF r] obtain n0 where s: "c # cs = replicate (Suc n0) mask @ r" ..
  from groups_shape [of r U] mask_run_rest [OF r] obtain gs where
    gs: "r = concat (map (\<lambda>(c, n). c # replicate (Suc n) mask) gs) @ groups U r"
    and all: "list_all (\<lambda>(c, n). separator U c) gs"
    and stop: "\<not> can_extend U (groups U r)"
    by blast
  from s gs have "c # cs = match_string n0 gs @ groups U r"
    by (simp add: match_string_def)
  with all stop show ?thesis by blast
qed

text \<open>
  Claim C6, as the code has it. Scanning from the left, the substitution replaces by one
  \<open>[R]\<close> every match of the pattern and copies every other character. A match starts at
  an \<open>X\<close> that stands at a word boundary and is maximal: the run of \<open>X\<close>, extended over
  further runs of \<open>X\<close> each preceded by one character that is neither an ASCII letter nor
  a digit, up to where the text cannot extend it; every \<open>X\<close> at a word boundary starts
  one. Afterwards no \<open>X\<close> stands at a word boundary, and a narrative is returned unchanged
  exactly when none did before. Digits after a run are kept:
  \<open>Account XXXX123 was closed\<close> becomes \<open>Account [R]123 was closed\<close>.
\<close>

theorem redaction_at_word_boundaries:
  "cleanup_narratives U series = map (map_option (re_sub U None)) series
   \<and> re_sub U prev [] = []
   \<and> (\<not> (c = mask \<and> word_boundary U prev (Some c)) \<longrightarrow>
        re_sub U prev (c # cs) = c # re_sub U (Some c) cs)
   \<and> (word_boundary U prev (Some mask) \<and> list_all (\<lambda>(c, n). separator U c) gs \<and> \<not> can_extend U rest \<longrightarrow>
        re_sub U prev (match_string n0 gs @ rest) = replacement @ re_sub U (Some mask) rest)
   \<and> (c = mask \<and> word_boundary U prev (Some c) \<longrightarrow>
        (\<exists>n0 gs rest. c # cs = match_string n0 gs @ rest
           \<and> list_all (\<lambda>(c, n). separator U c) gs \<and> \<not> can_extend U rest))
   \<and> replacement = py_str ''[R]''
   \<and> \<not> mask_at_boundary U None (re_sub U None s)
   \<and> (re_sub U None s = s) = (\<not> mask_at_boundary U None s)
   \<and> cleanup_narratives U [Some (py_str ''Account XXXX123 was closed'')]
       = [Some (py_str ''Account [R]123 was closed'')]
   \<and> narrative_redactor U (py_str ''Account XXXX123 was closed'') = py_str ''Account [R]123 was closed''"
proof -
  have ex: "re_sub U None (py_str ''Account XXXX123 was closed'') = py_str ''Account [R]123 was closed''"
    by (simp add: py_str_def pattern_match_def word_boundary_def re_word_def ascii_letter_def
        ascii_digit_def mask_def replacement_def separator_def re_digit_def)
  have short: "take 500 (py_str ''Account [R]123 was closed'') = py_str ''Account [R]123 was closed''"
    by (simp add: py_str_def)
  have fixed: "(re_sub U None s = s) = (\<not> mask_at_boundary U None s)"
    using re_sub_fixed [of U None s] re_sub_changes [of U None s] by blast
  have ex1: "cleanup_narratives U [Some (py_str ''Account XXXX123 was closed'')]
       = [Some (py_str ''Account [R]123 was closed'')]"
    using ex by (simp add: cleanup_narratives_def)
  have ex2: "narrative_redactor U (py_str ''Account XXXX123 was closed'') = py_str ''Account [R]123 was closed''"
    using ex short by (simp add: narrative_redactor_def)
  have series: "cleanup_narratives U series = map (map_option (re_sub U None)) series"
    by (simp add: cleanup_narratives_def)
  have nil: "re_sub U prev [] = []"
    by simp
  have keep: "\<not> (c = mask \<and> word_boundary U prev (Some c)) \<longrightarrow>
        re_sub U prev (c # cs) = c # re_sub U (Some c) cs"
    using re_sub_keep [of c U prev cs] by blast
  have match: "word_boundary U prev (Some mask) \<and> list_all (\<lambda>(c, n). separator U c) gs \<and> \<not> can_extend U rest \<longrightarrow>
        re_sub U prev (match_string n0 gs @ rest) = replacement @ re_sub U (Some mask) rest"
    using re_sub_match_string [of U prev gs rest n0] by blast
  have shape: "c = mask \<and> word_boundary U prev (Some c) \<longrightarrow>
        (\<exists>n0 gs rest. c # cs = match_string n0 gs @ rest
           \<and> list_all (\<lambda>(c, n). separator U c) gs \<and> \<not> can_extend U rest)"
    using match_shape [of c cs U] by blast
  have token: "replacement = py_str ''[R]''"
    by (simp add: replacement_def)
  show ?thesis
    using re_sub_clean [of U None s]
    by (intro conjI series nil keep match shape token fixed ex1 ex2)
qed

theorem redaction_at_word_boundaries_witness:
  "match_string 3 [] @ py_str ''123 was closed'' = py_str ''XXXX123 was closed''
   \<and> re_sub no_unicode (Some 32) (py_str ''XXXX123 was closed'')
       = replacement @ re_sub no_unicode (Some mask) (py_str ''123 was closed'')
   \<and> re_sub no_unicode None (py_str ''Ac'') = 65 # re_sub no_unicode (Some 65) (py_str ''c'')
   \<and> match_string 1 [(47, 1), (47, 3)] @ py_str '' ok'' = py_str ''XX/XX/XXXX ok''
   \<and> re_sub no_unicode None (py_str ''XX/XX/XXXX ok'')
       = replacement @ re_sub no_unicode (Some mask) (py_str '' ok'')"
proof -
  have m1: "match_string 3 [] @ py_str ''123 was closed'' = py_str ''XXXX123 was closed''"
    by (simp add: match_string_def py_str_def mask_def numeral_eq_Suc)
  have m2: "match_string 1 [(47, 1), (47, 3)] @ py_str '' ok'' = py_str ''XX/XX/XXXX ok''"
    by (simp add: match_string_def py_str_def mask_def numeral_eq_Suc)
  have b1: "word_boundary no_unicode (Some 32) (Some mask)"
    by (simp add: word_boundary_def re_word_def ascii_letter_def ascii_digit_def mask_def)
  have b2: "word_boundary no_unicode None (Some mask)"
    by (simp add: word_boundary_def re_word_def ascii_letter_def ascii_digit_def mask_def)
  have s2: "list_all (\<lambda>(c, n). separator no_unicode c) [(47, 1), (47, 3)]"
    by (simp add: separator_def ascii_letter_def re_digit_def ascii_digit_def)
  have e1: "\<not> can_extend no_unicode (py_str ''123 was closed'')"
    by (simp add: py_str_def mask_def separator_def ascii_letter_def re_digit_def ascii_digit_def)
  have e2: "\<not> can_extend no_unicode (py_str '' ok'')"
    by (simp add: py_str_def mask_def separator_def ascii_letter_def re_digit_def ascii_digit_def)
  have k: "\<not> (65 = mask \<and> word_boundary no_unicode None (Some 65))"
    by (simp add: mask_def)
  have c: "py_str ''Ac'' = 65 # py_str ''c''"
    by (simp add: py_str_def)
  from redaction_at_word_boundaries [of no_unicode _ "Some 32" _ _ "[]" "py_str ''123 was closed''" 3] b1 e1
  have r1: "re_sub no_unicode (Some 32) (match_string 3 [] @ py_str ''123 was closed'')
       = replacement @ re_sub no_unicode (Some mask) (py_str ''123 was closed'')"
    by simp
  from redaction_at_word_boundaries [of no_unicode _ None _ _ "[(47, 1), (47, 3)]" "py_str '' ok''" 1] b2 s2 e2
  have r2: "re_sub no_unicode None (match_string 1 [(47, 1), (47, 3)] @ py_str '' ok'')
       = replacement @ re_sub no_unicode (Some mask) (py_str '' ok'')"
    by blast
  from redaction_at_word_boundaries [of no_unicode _ None 65 "py_str ''c''"] k
  have r3: "re_sub no_unicode None (65 # py_str ''c'') = 65 # re_sub no_unicode (Some 65) (py_str ''c'')"
    by blast
  from m1 m2 r1 r2 r3 c show ?thesis by simp
qed

text \<open>
  Claim C6 as stated fails on its own example: the digits that follow the run of \<open>X\<close> are
  not part of the match, so the result is \<open>Account [R]123 was closed\<close> and not
  \<open>Account [R] was closed\<close>.
\<close>

theorem digits_after_mask_counterexample:
  "narrative_redactor no_unicode (py_str ''Account XXXX123 was closed'') = py_str ''Account [R]123 was closed''
   \<and> narrative_redactor no_unicode (py_str ''Account XXXX123 was closed'') \<noteq> py_str ''Account [R] was closed''
   \<and> cleanup_narratives no_unicode [Some (py_str ''Account XXXX123 was closed'')]
       \<noteq> [Some (py_str ''Account [R] was closed'')]"
proof -
  have ex: "re_sub no_unicode None (py_str ''Account XXXX123 was closed'') = py_str ''Account [R]123 was closed''"
    by (simp add: py_str_def pattern_match_def word_boundary_def re_word_def ascii_letter_def
        ascii_digit_def mask_def replacement_def separator_def re_digit_def)
  have short: "take 500 (py_str ''Account [R]123 was closed'') = py_str ''Account [R]123 was closed''"
    by (simp add: py_str_def)
  have diff: "py_str ''Account [R]123 was closed'' \<noteq> py_str ''Account [R] was closed''"
    by (simp add: py_str_def)
  show ?thesis
    using ex short diff by (simp add: cleanup_narratives_def narrative_redactor_def)
qed

text \<open>
  Claim C8. Whatever the narrative, the redacted and truncated narrative has at most 500
  characters.
\<close>

theorem narrative_at_most_500: "length (narrative_redactor U s) \<le> 500"
  by (simp add: narrative_redactor_def)

text \<open>
  Claim C9. The full transform, substitution followed by truncation to 500 characters, is
  idempotent: a second application changes nothing.
\<close>

theorem narrative_redactor_idempotent:
  "narrative_redactor U (narrative_redactor U s) = narrative_redactor U s"
proof -
  have "\<not> mask_at_boundary U None (take 500 (re_sub U None s))"
    by (rule mask_at_boundary_take) (rule re_sub_clean)
  then have "re_sub U None (take 500 (re_sub U None s)) = take 500 (re_sub U None s)"
    by (rule re_sub_fixed)
  then show ?thesis by (simp add: narrative_redactor_def)
qed

section \<open>The trend table\<close>

lemma set_unique: "set (unique xs) = set xs"
  by (induction xs rule: unique.induct) auto

lemma distinct_unique: "distinct (unique xs)"
  by (induction xs rule: unique.induct) (auto simp: set_unique)

lemma unique_distinct: "distinct xs \<Longrightarrow> unique xs = xs"
proof (induction xs)
  case Nil
  then show ?case by simp
next
  case (Cons x xs)
  then have "filter (\<lambda>y. y \<noteq> x) xs = xs"
    by (auto intro: filter_True)
  with Cons show ?case by simp
qed

lemma unique_append:
  "unique (xs @ ys) = unique xs @ unique (filter (\<lambda>y. y \<notin> set xs) ys)"
proof (induction xs arbitrary: ys rule: unique.induct)
  case 1
  then show ?case by simp
next
  case (2 x xs)
  have "filter (\<lambda>y. y \<notin> set (filter (\<lambda>y. y \<noteq> x) xs)) (filter (\<lambda>y. y \<noteq> x) ys)
      = filter (\<lambda>y. y \<notin> set (x # xs)) ys"
    by (induction ys) auto
  with "2.IH" [of "filter (\<lambda>y. y \<noteq> x) ys"] show ?case by simp
qed

lemma union_indexes_distinct:
  assumes "indexes \<noteq> []" and "\<forall>index \<in> set indexes. distinct index"
  shows "union_indexes indexes = unique (concat indexes)"
proof (cases indexes)
  case Nil
  with assms(1) show ?thesis by simp
next
  case (Cons index others)
  with assms(2) have d: "distinct index" by simp
  show ?thesis
  proof (cases others)
    case Nil
    with Cons d show ?thesis by (simp add: union_indexes_def unique_distinct)
  next
    case (Cons other rest)
    with \<open>indexes = index # others\<close> have u: "union_indexes indexes =
        (if list_all (\<lambda>other. other = index) others then index
         else unique index @ unique (filter (\<lambda>l. l \<notin> set (unique index)) (concat others)))"
      by (simp add: union_indexes_def)
    have c: "unique (concat indexes) = index @ unique (filter (\<lambda>l. l \<notin> set index) (concat others))"
      using d by (simp add: \<open>indexes = index # others\<close> unique_append unique_distinct)
    show ?thesis
    proof (cases "list_all (\<lambda>other. other = index) others")
      case True
      then have "filter (\<lambda>l. l \<notin> set index) (concat others) = []"
        by (induction others) auto
      with True show ?thesis by (simp add: u c)
    next
      case False
      with d show ?thesis by (simp add: u c set_unique unique_distinct)
    qed
  qed
qed

lemma collect_frames:
  "collect buckets = Inr data \<Longrightarrow>
   data = map (\<lambda>b. \<lparr>column = key b, rows = trend_period b\<rparr>) buckets"
proof (induction buckets arbitrary: data)
  case Nil
  then show ?case by simp
next
  case (Cons b bs)
  then show ?case
    by (auto simp: item_frame_def split: sum.splits if_splits)
qed

lemma map_of_own_keys:
  "distinct (map fst ps) \<Longrightarrow> map (map_of ps) (map fst ps) = map Some (map snd ps)"
proof (induction ps)
  case Nil
  then show ?case by simp
next
  case (Cons p ps)
  obtain k v where p: "p = (k, v)" by (cases p)
  with Cons.prems have "k \<notin> fst ` set ps" and "distinct (map fst ps)" by auto
  then have "map (map_of ((k, v) # ps)) (map fst ps) = map (map_of ps) (map fst ps)"
    by (auto intro!: map_cong)
  with Cons.IH \<open>distinct (map fst ps)\<close> p show ?case by simp
qed

lemma those_map_Some: "those (map Some xs) = Some xs"
  by (induction xs) simp_all

lemma those_Some_nth:
  "those xs = Some ys \<Longrightarrow> length ys = length xs \<and> (\<forall>i < length xs. xs ! i = Some (ys ! i))"
proof (induction xs arbitrary: ys)
  case Nil
  then show ?case by simp
next
  case (Cons x xs)
  from Cons.prems obtain y zs where x: "x = Some y" and zs: "those xs = Some zs" and ys: "ys = y # zs"
    by (auto split: option.splits)
  from Cons.IH [OF zs] x ys show ?case
    by (auto simp: nth_Cons split: nat.splits)
qed

lemma reindex_distinct:
  assumes "distinct (map fst (rows df))"
  shows "reindex upcast new_labels df = Inr (align upcast new_labels df)"
proof (cases "map fst (rows df) = new_labels")
  case True
  then have "map (map_of (rows df)) new_labels = map Some (map snd (rows df))"
    using map_of_own_keys [OF assms] by simp
  then have "those (map (map_of (rows df)) new_labels) = Some (map snd (rows df))"
    by (simp only: those_map_Some)
  then have "align upcast new_labels df = IntColumn (map snd (rows df))"
    by (simp add: align_def)
  with True show ?thesis by (simp add: reindex_def)
next
  case False
  with assms show ?thesis by (simp add: reindex_def)
qed

lemma reindex_all_distinct:
  "\<forall>df \<in> set dfs. distinct (map fst (rows df)) \<Longrightarrow>
   reindex_all upcast new_labels dfs = Inr (map (\<lambda>df. (column df, align upcast new_labels df)) dfs)"
  by (induction dfs) (simp_all add: reindex_distinct)

lemma length_fillna_align: "length (fillna_count (align upcast new_labels df)) = length new_labels"
proof (cases "those (map (map_of (rows df)) new_labels)")
  case None
  then show ?thesis by (simp add: align_def fillna_count_def)
next
  case (Some ns)
  from those_Some_nth [OF Some] Some show ?thesis
    by (simp add: align_def fillna_count_def)
qed

lemma missing_cell_zero:
  assumes "i < length new_labels" and "map_of (rows df) (new_labels ! i) = None"
  shows "fillna_count (align upcast new_labels df) ! i = Zero"
proof (cases "those (map (map_of (rows df)) new_labels)")
  case None
  with assms show ?thesis by (simp add: align_def fillna_count_def)
next
  case (Some ns)
  from those_Some_nth [OF Some] assms have False by auto
  then show ?thesis ..
qed

lemma trend_reshaper_Inr:
  assumes "trend_reshaper upcast to_datetime buckets = Inr t"
  obtains data cols dates where
    "collect buckets = Inr data"
    "buckets \<noteq> []"
    "reindex_all upcast (row_labels buckets) data = Inr cols"
    "to_datetime (row_labels buckets) = Inr dates"
    "length dates = length (row_labels buckets)"
    "Date t = map fillna_date dates"
    "counts t = map (\<lambda>(name, col). (name, fillna_count col)) cols"
proof -
  from assms obtain data where c: "collect buckets = Inr data"
    by (auto simp: trend_reshaper_def split: sum.splits)
  from collect_frames [OF c] have data: "data = map (\<lambda>b. \<lparr>column = key b, rows = trend_period b\<rparr>) buckets" .
  from assms c obtain wide where w: "pd_concat upcast data = Inr wide"
    by (auto simp: trend_reshaper_def split: sum.splits)
  then have ne: "data \<noteq> []"
    by (auto simp: pd_concat_def split: if_splits)
  have labels: "union_indexes (map (\<lambda>df. map fst (rows df)) data) = row_labels buckets"
    by (simp add: data row_labels_def comp_def)
  from w ne labels obtain cols where r: "reindex_all upcast (row_labels buckets) data = Inr cols"
    and wide: "wide = \<lparr>wide_index = row_labels buckets, wide_columns = cols\<rparr>"
    by (auto simp: pd_concat_def Let_def split: sum.splits)
  from assms c w wide obtain dates where d: "to_datetime (row_labels buckets) = Inr dates"
    and len: "length dates = length (row_labels buckets)"
    and t: "t = \<lparr>Date = map fillna_date dates,
              counts = map (\<lambda>(name, col). (name, fillna_count col)) cols\<rparr>"
    by (auto simp: trend_reshaper_def split: sum.splits if_splits)
  from ne data have "buckets \<noteq> []" by auto
  with that c r d len t show thesis by simp
qed

lemma row_labels_first_appearance:
  assumes "buckets \<noteq> []" and "\<forall>b \<in> set buckets. distinct (map fst (trend_period b))"
  shows "row_labels buckets = timestamp_labels buckets"
  unfolding row_labels_def timestamp_labels_def
  using assms by (intro union_indexes_distinct) auto

text \<open>The reshaper does return a table when there is a category, every category has
  entries without a repeated label and is not called \<open>Date\<close>, and the labels parse.\<close>

lemma collect_returns:
  "\<forall>b \<in> set buckets. trend_period b \<noteq> [] \<Longrightarrow>
   collect buckets = Inr (map (\<lambda>b. \<lparr>column = key b, rows = trend_period b\<rparr>) buckets)"
  by (induction buckets) (simp_all add: item_frame_def)

lemma trend_reshaper_returns:
  assumes "buckets \<noteq> []"
    and "\<forall>b \<in> set buckets. trend_period b \<noteq> [] \<and> key b \<noteq> ''Date''"
    and "\<forall>b \<in> set buckets. distinct (map fst (trend_period b))"
    and "to_datetime (timestamp_labels buckets) = Inr dates"
    and "length dates = length (timestamp_labels buckets)"
  shows "\<exists>t. trend_reshaper upcast to_datetime buckets = Inr t"
proof -
  let ?data = "map (\<lambda>b. \<lparr>column = key b, rows = trend_period b\<rparr>) buckets"
  let ?cols = "map (\<lambda>df. (column df, align upcast (timestamp_labels buckets) df)) ?data"
  have c: "collect buckets = Inr ?data"
    using assms(2) by (intro collect_returns) simp
  have labels: "union_indexes (map (\<lambda>df. map fst (rows df)) ?data) = timestamp_labels buckets"
    using row_labels_first_appearance [OF assms(1,3)] by (simp add: row_labels_def comp_def)
  have "\<forall>df \<in> set ?data. distinct (map fst (rows df))"
    using assms(3) by auto
  from reindex_all_distinct [OF this, of upcast "timestamp_labels buckets"] assms(1) labels
  have p: "pd_concat upcast ?data = Inr \<lparr>wide_index = timestamp_labels buckets, wide_columns = ?cols\<rparr>"
    by (simp add: pd_concat_def Let_def)
  have "''Date'' \<notin> set (map fst ?cols)"
    using assms(2) by (auto simp: comp_def)
  with c p assms(4,5) show ?thesis
    by (simp add: trend_reshaper_def)
qed

lemma spec_example_table:
  "trend_reshaper small_counts iso_to_datetime spec_example
   = Inr \<lparr>Date = [Timestamp 20240101, Timestamp 20240201],
          counts = [(''Checking'', [Count 3, Count 5]), (''Credit Card'', [Zero, Upcast 2])]\<rparr>"
  by code_simp

text \<open>
  Claim C1, as the code has it. When the category labels are distinct and no category's
  bucket sequence repeats a timestamp label, the table the reshaper produces has exactly
  one row per distinct timestamp label occurring across all bucket sequences (in the order
  of first appearance), exactly one count column per category label, with one cell per
  row, and every cell for which the category's bucket sequence has no entry at the row's
  label holds 0.
\<close>

theorem one_row_per_label_one_column_per_category:
  assumes "trend_reshaper upcast to_datetime buckets = Inr t"
    and "distinct (map key buckets)"
    and "\<forall>b \<in> set buckets. distinct (map fst (trend_period b))"
  shows "distinct (timestamp_labels buckets)
    \<and> set (timestamp_labels buckets) = (\<Union>b \<in> set buckets. fst ` set (trend_period b))
    \<and> length (Date t) = card (\<Union>b \<in> set buckets. fst ` set (trend_period b))
    \<and> (\<exists>dates. to_datetime (timestamp_labels buckets) = Inr dates \<and> Date t = map fillna_date dates)
    \<and> map fst (counts t) = map key buckets
    \<and> (\<forall>j < length buckets.
          length (snd (counts t ! j)) = length (timestamp_labels buckets)
          \<and> (\<forall>i < length (timestamp_labels buckets).
                map_of (trend_period (buckets ! j)) (timestamp_labels buckets ! i) = None \<longrightarrow>
                snd (counts t ! j) ! i = Zero))"
proof -
  from assms(1) obtain data cols dates where
    c: "collect buckets = Inr data" and ne: "buckets \<noteq> []"
    and r: "reindex_all upcast (row_labels buckets) data = Inr cols"
    and d: "to_datetime (row_labels buckets) = Inr dates"
    and len: "length dates = length (row_labels buckets)"
    and dt: "Date t = map fillna_date dates"
    and ct: "counts t = map (\<lambda>(name, col). (name, fillna_count col)) cols"
    by (rule trend_reshaper_Inr)
  let ?labels = "timestamp_labels buckets"
  let ?frame = "\<lambda>b. \<lparr>column = key b, rows = trend_period b\<rparr>"
  from collect_frames [OF c] have data: "data = map ?frame buckets" .
  have labels: "row_labels buckets = ?labels"
    using ne assms(3) by (rule row_labels_first_appearance)
  have s: "set ?labels = (\<Union>b \<in> set buckets. fst ` set (trend_period b))"
    by (auto simp: timestamp_labels_def set_unique)
  have dl: "distinct ?labels"
    by (simp add: timestamp_labels_def distinct_unique)
  have "\<forall>df \<in> set data. distinct (map fst (rows df))"
    using assms(3) by (auto simp: data)
  from reindex_all_distinct [OF this, of upcast "row_labels buckets"] r
  have cols: "cols = map (\<lambda>df. (column df, align upcast ?labels df)) data"
    by (simp add: labels)
  have counts: "counts t = map (\<lambda>b. (key b, fillna_count (align upcast ?labels (?frame b)))) buckets"
    by (simp add: ct cols data comp_def)
  have rows: "length (Date t) = card (\<Union>b \<in> set buckets. fst ` set (trend_period b))"
    using distinct_card [OF dl] by (simp add: dt len labels s)
  from d dt labels have ex: "\<exists>dates. to_datetime ?labels = Inr dates \<and> Date t = map fillna_date dates"
    by auto
  have names: "map fst (counts t) = map key buckets"
    by (simp add: counts comp_def)
  have cells: "length (snd (counts t ! j)) = length ?labels
      \<and> (\<forall>i < length ?labels.
            map_of (trend_period (buckets ! j)) (?labels ! i) = None \<longrightarrow> snd (counts t ! j) ! i = Zero)"
    if j: "j < length buckets" for j
  proof -
    from j have col: "snd (counts t ! j) = fillna_count (align upcast ?labels (?frame (buckets ! j)))"
      by (simp add: counts)
    have "fillna_count (align upcast ?labels (?frame (buckets ! j))) ! i = Zero"
      if "i < length ?labels" and "map_of (trend_period (buckets ! j)) (?labels ! i) = None" for i
      using that by (intro missing_cell_zero) simp_all
    then show ?thesis
      unfolding col by (simp add: length_fillna_align)
  qed
  from dl s rows ex names cells show ?thesis by blast
qed

theorem one_row_per_label_one_column_per_category_witness:
  "trend_reshaper small_counts iso_to_datetime spec_example
     = Inr \<lparr>Date = [Timestamp 20240101, Timestamp 20240201],
            counts = [(''Checking'', [Count 3, Count 5]), (''Credit Card'', [Zero, Upcast 2])]\<rparr>
   \<and> distinct (map key spec_example)
   \<and> timestamp_labels spec_example = [''2024-01-01'', ''2024-02-01'']
   \<and> length [Timestamp 20240101, Timestamp (20240201 :: int)]
       = card (\<Union>b \<in> set spec_example. fst ` set (trend_period b))
   \<and> map_of (trend_period (spec_example ! 1)) (timestamp_labels spec_example ! 0) = None
   \<and> snd ([(''Checking'', [Count 3, Count 5]), (''Credit Card'', [Zero, Upcast (2 :: int)])] ! 1) ! 0 = Zero"
proof -
  have h1: "trend_reshaper small_counts iso_to_datetime spec_example
     = Inr \<lparr>Date = [Timestamp 20240101, Timestamp 20240201],
            counts = [(''Checking'', [Count 3, Count 5]), (''Credit Card'', [Zero, Upcast 2])]\<rparr>"
    by (rule spec_example_table)
  have h2: "distinct (map key spec_example)"
    by (simp add: spec_example_def)
  have h3: "\<forall>b \<in> set spec_example. distinct (map fst (trend_period b))"
    by (simp add: spec_example_def)
  have l: "timestamp_labels spec_example = [''2024-01-01'', ''2024-02-01'']"
    by (simp add: timestamp_labels_def spec_example_def)
  have m: "map_of (trend_period (spec_example ! 1)) (timestamp_labels spec_example ! 0) = None"
    by (simp add: l) (simp add: spec_example_def)
  from one_row_per_label_one_column_per_category [OF h1 h2 h3] h1 h2 l m show ?thesis
    by simp
qed

text \<open>
  Claim C1 as stated fails when one category's bucket sequence repeats a timestamp label:
  the single frame is taken over as it is, and the table has two rows for the one label.
\<close>

theorem repeated_label_counterexample:
  "distinct (map key repeated_label_example)
   \<and> trend_reshaper small_counts iso_to_datetime repeated_label_example
       = Inr \<lparr>Date = [Timestamp 20240101, Timestamp 20240101],
              counts = [(''Checking'', [Count 3, Count 5])]\<rparr>
   \<and> card (\<Union>b \<in> set repeated_label_example. fst ` set (trend_period b)) = 1
   \<and> length [Timestamp 20240101, Timestamp (20240101 :: int)] \<noteq>
       card (\<Union>b \<in> set repeated_label_example. fst ` set (trend_period b))"
proof -
  have t: "trend_reshaper small_counts iso_to_datetime repeated_label_example
       = Inr \<lparr>Date = [Timestamp 20240101, Timestamp 20240101],
              counts = [(''Checking'', [Count 3, Count 5])]\<rparr>"
    by code_simp
  have c: "card (\<Union>b \<in> set repeated_label_example. fst ` set (trend_period b)) = 1"
    by (simp add: repeated_label_example_def)
  have d: "distinct (map key repeated_label_example)"
    by (simp add: repeated_label_example_def)
  from t c d show ?thesis by simp
qed

text \<open>
  Claim C2 on the code: with no category bucket there is nothing to concatenate, and the
  reshaper raises \<open>ValueError\<close> instead of returning an empty table.
\<close>

theorem no_buckets_raises: "trend_reshaper upcast to_datetime [] = Inl ValueError"
  by (simp add: trend_reshaper_def pd_concat_def)

text \<open>
  Claim C3, as the code has it. The rows of the table are never sorted: the \<open>Date\<close> column
  is the parse of the row labels in the order the concatenation puts them, which is the
  order of first appearance of the timestamp labels in the input (categories in input
  order) when no bucket sequence repeats a label.
\<close>

theorem rows_in_order_of_first_appearance:
  assumes "trend_reshaper upcast to_datetime buckets = Inr t"
  shows "(\<exists>dates. to_datetime (row_labels buckets) = Inr dates \<and> Date t = map fillna_date dates)
    \<and> (list_all (\<lambda>b. distinct (map fst (trend_period b))) buckets \<longrightarrow>
         row_labels buckets = timestamp_labels buckets)"
proof -
  from assms obtain dates where ne: "buckets \<noteq> []"
    and d: "to_datetime (row_labels buckets) = Inr dates"
    and dt: "Date t = map fillna_date dates"
    by (rule trend_reshaper_Inr)
  have "row_labels buckets = timestamp_labels buckets"
    if "list_all (\<lambda>b. distinct (map fst (trend_period b))) buckets"
    using row_labels_first_appearance [OF ne] that by (simp add: list_all_iff)
  with d dt show ?thesis by blast
qed

theorem rows_in_order_of_first_appearance_witness:
  "trend_reshaper small_counts iso_to_datetime late_first_example
     = Inr \<lparr>Date = [Timestamp 20240201, Timestamp 20240101],
            counts = [(''Checking'', [Upcast 5, Zero]), (''Credit Card'', [Count 2, Count 2])]\<rparr>
   \<and> row_labels late_first_example = [''2024-02-01'', ''2024-01-01'']
   \<and> timestamp_labels late_first_example = [''2024-02-01'', ''2024-01-01'']
   \<and> iso_to_datetime [''2024-02-01'', ''2024-01-01''] = Inr [Some 20240201, Some 20240101]"
proof -
  have h: "trend_reshaper small_counts iso_to_datetime late_first_example
     = Inr \<lparr>Date = [Timestamp 20240201, Timestamp 20240101],
            counts = [(''Checking'', [Upcast 5, Zero]), (''Credit Card'', [Count 2, Count 2])]\<rparr>"
    by code_simp
  have l: "timestamp_labels late_first_example = [''2024-02-01'', ''2024-01-01'']"
    by (simp add: timestamp_labels_def late_first_example_def)
  have d: "list_all (\<lambda>b. distinct (map fst (trend_period b))) late_first_example"
    by (simp add: late_first_example_def)
  have p: "iso_to_datetime [''2024-02-01'', ''2024-01-01''] = Inr [Some 20240201, Some 20240101]"
    by code_simp
  from rows_in_order_of_first_appearance [OF h] d l p h show ?thesis
    by simp
qed

text \<open>
  Claim C3 as stated fails: each bucket sequence below is in ascending order, yet February
  comes first in the table, before January.
\<close>

theorem rows_not_sorted_counterexample:
  "trend_reshaper small_counts iso_to_datetime late_first_example
     = Inr \<lparr>Date = [Timestamp 20240201, Timestamp 20240101],
            counts = [(''Checking'', [Upcast 5, Zero]), (''Credit Card'', [Count 2, Count 2])]\<rparr>
   \<and> \<not> sorted [20240201, 20240101 :: int]"
proof -
  have h: "trend_reshaper small_counts iso_to_datetime late_first_example
     = Inr \<lparr>Date = [Timestamp 20240201, Timestamp 20240101],
            counts = [(''Checking'', [Upcast 5, Zero]), (''Credit Card'', [Count 2, Count 2])]\<rparr>"
    by code_simp
  then show ?thesis by simp
qed

end
